theory Spec2Isabelle
  imports Main "HOL-Library.Sublist"
begin

section \<open>Python values\<close>

text \<open>
  A Python \<open>str\<close> is a sequence of Unicode code points, so it is modelled as a list of
  natural numbers (one per code point); \<open>py\<close> turns an ASCII literal into such a
  sequence. Python integers are unbounded and \<open>bool\<close> is a subclass of \<open>int\<close>.
  A floating point number is kept as the text that denotes it: no operation of the
  inventory computes with floats.
\<close>

type_synonym pystr = "nat list"

definition py :: "string \<Rightarrow> pystr" where
  "py s = map of_char s"

datatype pyval =
    PNone
  | PBool bool
  | PInt int
  | PFloat pystr
  | PStr pystr
  | PList "pyval list"
  | PDict "(pystr \<times> pyval) list"

text \<open>\<open>isinstance(v, str)\<close> and \<open>isinstance(v, int)\<close>, as views: the string, or the
  integer value, of a value of that type (\<open>True\<close> is the integer 1).\<close>

fun str_of :: "pyval \<Rightarrow> pystr option" where
  "str_of (PStr s) = Some s"
| "str_of _ = None"

fun int_of :: "pyval \<Rightarrow> int option" where
  "int_of (PInt n) = Some n"
| "int_of (PBool b) = Some (if b then 1 else 0)"
| "int_of _ = None"

definition isinstance_str :: "pyval \<Rightarrow> bool" where
  "isinstance_str v = (str_of v \<noteq> None)"

definition isinstance_int :: "pyval \<Rightarrow> bool" where
  "isinstance_int v = (int_of v \<noteq> None)"

section \<open>Exceptions, log records and outcomes\<close>

datatype exn =
    KeyError
  | FileNotFoundError
  | IsADirectoryError
  | PermissionError
  | UnicodeDecodeError
  | JSONDecodeError
  | ValueError
  | RecursionError

datatype level = INFO | WARNING | ERROR

text \<open>A log record is the level, the message template and its arguments, as passed to
  \<open>logging.info\<close>, \<open>logging.warning\<close> and \<open>logging.error\<close>.\<close>

type_synonym log = "level \<times> string \<times> pyval list"

text \<open>
  A call either returns a value or raises; both leave a state behind (the dictionary the
  caller passed, or the file system) and the log records emitted on the way.
\<close>

datatype ('a, 's) outcome =
    Returned 'a 's "log list"
  | Raised exn 's "log list"

text \<open>What a caller can observe of an outcome.\<close>

fun state_after :: "('a, 's) outcome \<Rightarrow> 's" where
  "state_after (Returned _ s _) = s"
| "state_after (Raised _ s _) = s"

fun result_of :: "('a, 's) outcome \<Rightarrow> 'a option" where
  "result_of (Returned v _ _) = Some v"
| "result_of (Raised _ _ _) = None"

fun raised :: "('a, 's) outcome \<Rightarrow> exn option" where
  "raised (Returned _ _ _) = None"
| "raised (Raised e _ _) = Some e"

fun logged :: "('a, 's) outcome \<Rightarrow> log list" where
  "logged (Returned _ _ l) = l"
| "logged (Raised _ _ l) = l"

section \<open>Dictionaries\<close>

text \<open>
  A \<open>dict\<close> keeps its keys in insertion order: it is an association list. Assigning to
  a key that is present replaces the value in place, assigning to a new key appends the
  entry; \<open>del\<close> removes the entry; reading a missing key with \<open>d[k]\<close> raises
  \<open>KeyError\<close>, with \<open>d.get(k, v)\<close> it gives the default.
\<close>

type_synonym 'v dict = "(pystr \<times> 'v) list"

definition wf_dict :: "'v dict \<Rightarrow> bool" where
  "wf_dict d = distinct (map fst d)"

definition dict_get :: "'v dict \<Rightarrow> pystr \<Rightarrow> 'v \<Rightarrow> 'v" where
  "dict_get d k dflt = (case map_of d k of None \<Rightarrow> dflt | Some v \<Rightarrow> v)"

definition dict_getitem :: "'v dict \<Rightarrow> pystr \<Rightarrow> exn + 'v" where
  "dict_getitem d k = (case map_of d k of None \<Rightarrow> Inl KeyError | Some v \<Rightarrow> Inr v)"

fun dict_setitem :: "'v dict \<Rightarrow> pystr \<Rightarrow> 'v \<Rightarrow> 'v dict" where
  "dict_setitem [] k v = [(k, v)]"
| "dict_setitem ((k', v') # d) k v =
     (if k' = k then (k, v) # d else (k', v') # dict_setitem d k v)"

definition dict_delitem :: "'v dict \<Rightarrow> pystr \<Rightarrow> exn + 'v dict" where
  "dict_delitem d k =
     (case map_of d k of
        None \<Rightarrow> Inl KeyError
      | Some _ \<Rightarrow> Inr (filter (\<lambda>p. fst p \<noteq> k) d))"

section \<open>The inventory operations\<close>

text \<open>The inventory: item name to integer quantity.\<close>

type_synonym store = "int dict"

text \<open>
  \<open>add_item\<close>: the two \<open>isinstance\<close> tests, the test for the empty name, and the
  assignment \<open>data[item] = data.get(item, 0) + qty\<close>.
\<close>

definition add_item :: "store \<Rightarrow> pyval \<Rightarrow> pyval \<Rightarrow> (unit, store) outcome" where
  "add_item data item qty =
     (case (str_of item, int_of qty) of
        (Some name, Some q) \<Rightarrow>
          (if name = [] then
             Returned () data [(WARNING, ''Cannot add an item with an empty name.'', [])]
           else
             Returned () (dict_setitem data name (dict_get data name 0 + q))
               [(INFO, ''Added %s of %s'', [qty, item])])
      | _ \<Rightarrow>
          Returned () data
            [(ERROR, ''Invalid types: item str, quantity int required.'', [])])"

text \<open>
  The body of the \<open>try\<close> of \<open>remove_item\<close>. An exception leaves with the dictionary as
  it is at that point.
\<close>

definition remove_item_try :: "store \<Rightarrow> pystr \<Rightarrow> int \<Rightarrow> (unit, store) outcome" where
  "remove_item_try data item qty =
     (case dict_getitem data item of
        Inl e \<Rightarrow> Raised e data []
      | Inr cur \<Rightarrow>
          if cur > qty then
            (let data' = dict_setitem data item (cur - qty) in
             case dict_getitem data' item of
               Inl e \<Rightarrow> Raised e data' []
             | Inr new \<Rightarrow>
                 Returned () data'
                   [(INFO, ''Removed %s of %s. New stock: %s'',
                     [PInt qty, PStr item, PInt new])])
          else
            (case dict_delitem data item of
               Inl e \<Rightarrow> Raised e data []
             | Inr data' \<Rightarrow>
                 Returned () data' [(INFO, ''Removed all stock of %s.'', [PStr item])]))"

text \<open>\<open>remove_item\<close>: the \<open>try\<close> with its handler for \<open>KeyError\<close>.\<close>

definition remove_item :: "store \<Rightarrow> pystr \<Rightarrow> int \<Rightarrow> (unit, store) outcome" where
  "remove_item data item qty =
     (case remove_item_try data item qty of
        Raised KeyError data' l \<Rightarrow>
          Returned () data'
            (l @ [(WARNING, ''Attempted to remove '' @ [CHR 0x27] @ ''%s'' @ [CHR 0x27]
                     @ '' but it does not exist in stock.'', [PStr item])])
      | r \<Rightarrow> r)"

definition get_qty :: "store \<Rightarrow> pystr \<Rightarrow> (int, store) outcome" where
  "get_qty data item = Returned (dict_get data item 0) data []"

text \<open>\<open>check_low_items\<close>: the comprehension over \<open>data.items()\<close>.\<close>

definition check_low_items :: "store \<Rightarrow> int \<Rightarrow> (pystr list, store) outcome" where
  "check_low_items data threshold =
     Returned (map fst (filter (\<lambda>(item, qty). qty < threshold) data)) data []"

text \<open>
  What the specification asks of \<open>lowStock\<close>, in its own words: the keys of the store,
  in iteration order, whose quantity is strictly less than the threshold.
\<close>

definition lowStock_spec :: "store \<Rightarrow> int \<Rightarrow> pystr list" where
  "lowStock_spec d t =
     filter (\<lambda>k. case map_of d k of None \<Rightarrow> False | Some q \<Rightarrow> q < t) (map fst d)"

text \<open>The invariant of the data model: every stored quantity is strictly positive.\<close>

definition store_inv :: "store \<Rightarrow> bool" where
  "store_inv d = (\<forall>p \<in> set d. 0 < snd p)"

section \<open>The JSON decoder\<close>

text \<open>
  \<open>json.load\<close> as \<open>load_data\<close> calls it: the decoder of the \<open>json\<close> module of
  CPython with its default settings, on the text of the file. Its parts are the scanner of string
  literals (\<open>scanstring\<close>, in strict mode), the pattern of numbers (\<open>match_number\<close>),
  and the mutually recursive scanners of values, arrays and objects. A failure of
  \<open>scanstring\<close> is a \<open>JSONDecodeError\<close>.
\<close>

definition is_ws :: "nat \<Rightarrow> bool" where
  "is_ws c = (c = 32 \<or> c = 9 \<or> c = 10 \<or> c = 13)"

definition skip_ws :: "pystr \<Rightarrow> pystr" where
  "skip_ws s = dropWhile is_ws s"

definition is_digit :: "nat \<Rightarrow> bool" where
  "is_digit c = (48 \<le> c \<and> c \<le> 57)"

definition hexval :: "nat \<Rightarrow> nat option" where
  "hexval c =
     (if 48 \<le> c \<and> c \<le> 57 then Some (c - 48)
      else if 97 \<le> c \<and> c \<le> 102 then Some (c - 87)
      else if 65 \<le> c \<and> c \<le> 70 then Some (c - 55)
      else None)"

text \<open>The four hexadecimal digits after \<open>\u\<close>.\<close>

definition decode_uXXXX :: "pystr \<Rightarrow> nat option" where
  "decode_uXXXX s =
     (case map hexval (take 4 s) of
        [Some a, Some b, Some c, Some d] \<Rightarrow> Some (((a * 16 + b) * 16 + c) * 16 + d)
      | _ \<Rightarrow> None)"

text \<open>The one-letter escapes: the letter after the backslash, to the character it denotes.\<close>

definition backslash :: "nat \<Rightarrow> nat option" where
  "backslash e =
     (if e = 34 then Some 34 else if e = 92 then Some 92 else if e = 47 then Some 47
      else if e = 98 then Some 8 else if e = 102 then Some 12 else if e = 110 then Some 10
      else if e = 114 then Some 13 else if e = 116 then Some 9 else None)"

definition cons_chr :: "nat \<Rightarrow> (pystr \<times> pystr) option \<Rightarrow> (pystr \<times> pystr) option" where
  "cons_chr c r = map_option (\<lambda>(t, rest). (c # t, rest)) r"

text \<open>
  \<open>scanstring\<close>, from the character after the opening quote: the string and what
  follows its closing quote. An escaped high surrogate that is followed by an escaped
  low surrogate is joined with it into one code point. Control characters are refused.
\<close>

fun scanstring :: "pystr \<Rightarrow> (pystr \<times> pystr) option" where
  "scanstring [] = None"
| "scanstring (c # s) =
     (if c = 34 then Some ([], s)
      else if c = 92 then
        (case s of
           [] \<Rightarrow> None
         | e # s' \<Rightarrow>
             if e = 117 then
               (case decode_uXXXX s' of
                  None \<Rightarrow> None
                | Some uni \<Rightarrow>
                    if 0xD800 \<le> uni \<and> uni \<le> 0xDBFF \<and> take 2 (drop 4 s') = [92, 117] then
                      (case decode_uXXXX (drop 6 s') of
                         None \<Rightarrow> None
                       | Some uni2 \<Rightarrow>
                           if 0xDC00 \<le> uni2 \<and> uni2 \<le> 0xDFFF then
                             cons_chr (0x10000 + ((uni - 0xD800) * 1024 + (uni2 - 0xDC00)))
                               (scanstring (drop 10 s'))
                           else cons_chr uni (scanstring (drop 4 s')))
                    else cons_chr uni (scanstring (drop 4 s')))
             else
               (case backslash e of
                  None \<Rightarrow> None
                | Some ch \<Rightarrow> cons_chr ch (scanstring s')))
      else if c < 32 then None
      else cons_chr c (scanstring s))"

declare scanstring.simps [simp del]

definition digits_val :: "pystr \<Rightarrow> nat" where
  "digits_val ds = foldl (\<lambda>a d. 10 * a + (d - 48)) 0 ds"

text \<open>The integer part of a number: an optional minus, then 0, or a digit from 1 to 9
  followed by digits. The result is the sign, the digits and the rest.\<close>

definition scan_intpart :: "pystr \<Rightarrow> (bool \<times> pystr \<times> pystr) option" where
  "scan_intpart s =
     (let neg = (case s of [] \<Rightarrow> False | c # _ \<Rightarrow> c = 45);
          s1 = (if neg then tl s else s)
      in case s1 of
           [] \<Rightarrow> None
         | d # t \<Rightarrow>
             if d = 48 then Some (neg, [48], t)
             else if 49 \<le> d \<and> d \<le> 57 then
               Some (neg, d # takeWhile is_digit t, dropWhile is_digit t)
             else None)"

definition scan_frac :: "pystr \<Rightarrow> pystr \<times> pystr" where
  "scan_frac s =
     (case s of
        [] \<Rightarrow> ([], s)
      | c # t \<Rightarrow>
          if c = 46 \<and> takeWhile is_digit t \<noteq> [] then
            (c # takeWhile is_digit t, dropWhile is_digit t)
          else ([], s))"

definition scan_exp :: "pystr \<Rightarrow> pystr \<times> pystr" where
  "scan_exp s =
     (case s of
        [] \<Rightarrow> ([], s)
      | c # t \<Rightarrow>
          if c = 101 \<or> c = 69 then
            (let sgn = (case t of [] \<Rightarrow> [] | x # _ \<Rightarrow> if x = 45 \<or> x = 43 then [x] else []);
                 t' = drop (length sgn) t
             in if takeWhile is_digit t' \<noteq> [] then
                  (c # sgn @ takeWhile is_digit t', dropWhile is_digit t')
                else ([], s))
          else ([], s))"

text \<open>
  The interpreter converts between \<open>int\<close> and decimal text only up to
  \<open>sys.get_int_max_str_digits()\<close> digits, 4300 unless it was changed; beyond that
  \<open>int(text)\<close> and \<open>repr(n)\<close> raise \<open>ValueError\<close>.
\<close>

definition int_max_str_digits :: nat where
  "int_max_str_digits = 4300"

text \<open>
  A number: \<open>None\<close> when the text does not start with one. With a fraction or an
  exponent it is a float, otherwise the integer \<open>int(digits)\<close>.
\<close>

definition match_number :: "pystr \<Rightarrow> (exn + pyval \<times> pystr) option" where
  "match_number s =
     (case scan_intpart s of
        None \<Rightarrow> None
      | Some (neg, ds, r1) \<Rightarrow>
          (let (frac, r2) = scan_frac r1; (ex, r3) = scan_exp r2
           in if frac \<noteq> [] \<or> ex \<noteq> [] then
                Some (Inr (PFloat ((if neg then [45] else []) @ ds @ frac @ ex), r3))
              else if int_max_str_digits < length ds then Some (Inl ValueError)
              else
                Some (Inr (PInt (if neg then - int (digits_val ds) else int (digits_val ds)),
                           r3))))"

text \<open>\<open>dict(pairs)\<close>: a later pair overwrites the value of an earlier one with the same
  key.\<close>

definition dict_of_pairs :: "(pystr \<times> 'v) list \<Rightarrow> 'v dict" where
  "dict_of_pairs ps = foldl (\<lambda>d (k, v). dict_setitem d k v) [] ps"

text \<open>
  \<open>scan_once\<close> reads one value at the start of the text; \<open>array_items\<close> is the loop
  of the array scanner, entered at the first element; \<open>object_members\<close> is the loop of
  the object scanner, entered after the opening quote of a key. Each gives the value
  and the rest of the text. The comparisons of lengths say that a scanner never gives
  back more text than it was given; they make the recursion well-founded. The nesting
  depth is not bounded here (the interpreter stops at its recursion limit with
  \<open>RecursionError\<close>).
\<close>

function scan_once :: "pystr \<Rightarrow> exn + pyval \<times> pystr"
  and array_items :: "pyval list \<Rightarrow> pystr \<Rightarrow> exn + pyval \<times> pystr"
  and object_members :: "(pystr \<times> pyval) list \<Rightarrow> pystr \<Rightarrow> exn + pyval \<times> pystr"
where
  "scan_once s =
     (case s of
        [] \<Rightarrow> Inl JSONDecodeError
      | c # t \<Rightarrow>
          if c = 34 then
            (case scanstring t of
               None \<Rightarrow> Inl JSONDecodeError
             | Some (str, r) \<Rightarrow> Inr (PStr str, r))
          else if c = 123 then
            (case skip_ws t of
               [] \<Rightarrow> Inl JSONDecodeError
             | x # r \<Rightarrow>
                 if x = 125 then Inr (PDict [], r)
                 else if x = 34 then object_members [] r
                 else Inl JSONDecodeError)
          else if c = 91 then
            (case skip_ws t of
               [] \<Rightarrow> Inl JSONDecodeError
             | x # r \<Rightarrow>
                 if x = 93 then Inr (PList [], r)
                 else array_items [] (x # r))
          else if take 4 s = [110, 117, 108, 108] then Inr (PNone, drop 4 s)
          else if take 4 s = [116, 114, 117, 101] then Inr (PBool True, drop 4 s)
          else if take 5 s = [102, 97, 108, 115, 101] then Inr (PBool False, drop 5 s)
          else
            (case match_number s of
               Some r \<Rightarrow> r
             | None \<Rightarrow>
                 if take 3 s = [78, 97, 78] then Inr (PFloat (take 3 s), drop 3 s)
                 else if take 8 s = [73, 110, 102, 105, 110, 105, 116, 121] then
                   Inr (PFloat (take 8 s), drop 8 s)
                 else if take 9 s = [45, 73, 110, 102, 105, 110, 105, 116, 121] then
                   Inr (PFloat (take 9 s), drop 9 s)
                 else Inl JSONDecodeError))"
| "array_items acc s =
     (case scan_once s of
        Inl e \<Rightarrow> Inl e
      | Inr (v, rest) \<Rightarrow>
          if length rest \<le> length s then
            (case skip_ws rest of
               [] \<Rightarrow> Inl JSONDecodeError
             | x # r \<Rightarrow>
                 if x = 93 then Inr (PList (acc @ [v]), r)
                 else if x = 44 then array_items (acc @ [v]) (skip_ws r)
                 else Inl JSONDecodeError)
          else Inl JSONDecodeError)"
| "object_members acc s =
     (case scanstring s of
        None \<Rightarrow> Inl JSONDecodeError
      | Some (key, r0) \<Rightarrow>
          (case skip_ws r0 of
             [] \<Rightarrow> Inl JSONDecodeError
           | x # r1 \<Rightarrow>
               if x \<noteq> 58 \<or> length s \<le> length r1 then Inl JSONDecodeError
               else
                 (case scan_once (skip_ws r1) of
                    Inl e \<Rightarrow> Inl e
                  | Inr (v, rest) \<Rightarrow>
                      if length rest \<le> length (skip_ws r1) then
                        (case skip_ws rest of
                           [] \<Rightarrow> Inl JSONDecodeError
                         | y # r2 \<Rightarrow>
                             if y = 125 then Inr (PDict (dict_of_pairs (acc @ [(key, v)])), r2)
                             else if y = 44 then
                               (case skip_ws r2 of
                                  [] \<Rightarrow> Inl JSONDecodeError
                                | z # r3 \<Rightarrow>
                                    if z = 34 then object_members (acc @ [(key, v)]) r3
                                    else Inl JSONDecodeError)
                             else Inl JSONDecodeError)
                      else Inl JSONDecodeError)))"
  by pat_completeness auto

termination
proof -
  have le: "length (skip_ws s) \<le> length s" for s
    by (simp add: skip_ws_def length_dropWhile_le)
  have lt: "length r < length s" if "skip_ws s = x # r" for s x r
    using le [of s] that by simp
  show ?thesis
    apply (relation "measure (\<lambda>x. case x of
              Inl s \<Rightarrow> 2 * length s + 1
            | Inr (Inl (acc, s)) \<Rightarrow> 2 * length s + 2
            | Inr (Inr (acc, s)) \<Rightarrow> 2 * length s + 2)")
         apply (auto dest!: lt)
    subgoal for s a b r using le [of r] by linarith
    subgoal for s a b r using le [of r] by linarith
    subgoal for s a b r using le [of r] by linarith
    done
qed

declare scan_once.simps [simp del] array_items.simps [simp del] object_members.simps [simp del]


section \<open>The JSON encoder\<close>















section \<open>Files\<close>












section \<open>Strings and numbers that survive the file\<close>






text \<open>What may follow the digits of an integer for the number to end there, and the
  first \<open>\u\<close> escape the encoder writes for a character that it escapes so.\<close>

definition ends_number :: "pystr \<Rightarrow> bool" where
  "ends_number r =
     (case r of [] \<Rightarrow> True | c # _ \<Rightarrow> \<not> is_digit c \<and> c \<noteq> 46 \<and> c \<noteq> 101 \<and> c \<noteq> 69)"


section \<open>Facts about dictionaries\<close>

lemma map_of_setitem_same: "map_of (dict_setitem d k v) k = Some v"
  by (induction d) auto

lemma map_of_setitem_other: "k' \<noteq> k \<Longrightarrow> map_of (dict_setitem d k v) k' = map_of d k'"
  by (induction d) auto

lemma setitem_absent: "map_of d k = None \<Longrightarrow> dict_setitem d k v = d @ [(k, v)]"
  by (induction d) (auto split: if_splits)

lemma set_setitem_subset: "set (dict_setitem d k v) \<subseteq> insert (k, v) (set d)"
  by (induction d) (auto split: if_splits)

lemma setitem_mem: "(k, v) \<in> set (dict_setitem d k v)"
  by (induction d) auto

lemma map_of_filter_other:
  "k' \<noteq> k \<Longrightarrow> map_of (filter (\<lambda>p. fst p \<noteq> k) d) k' = map_of d k'"
  by (induction d) auto

lemma store_inv_setitem:
  "store_inv d \<Longrightarrow> store_inv (dict_setitem d k v) \<longleftrightarrow> 0 < v"
proof
  assume "store_inv (dict_setitem d k v)"
  with setitem_mem [of k v d] show "0 < v"
    by (auto simp: store_inv_def)
next
  assume "store_inv d" "0 < v"
  with set_setitem_subset [of d k v] show "store_inv (dict_setitem d k v)"
    by (auto simp: store_inv_def)
qed

lemma map_of_filter_same: "map_of (filter (\<lambda>p. fst p \<noteq> k) d) k = None"
  by (induction d) auto

lemma store_inv_filter: "store_inv d \<Longrightarrow> store_inv (filter P d)"
  by (simp add: store_inv_def)

lemma dict_get_nonneg:
  assumes "store_inv d"
  shows "0 \<le> dict_get d s 0"
proof (cases "map_of d s")
  case None
  then show ?thesis by (simp add: dict_get_def)
next
  case (Some v)
  then have "(s, v) \<in> set d" by (rule map_of_SomeD)
  then have "0 < v" using assms by (auto simp: store_inv_def)
  then show ?thesis using Some by (simp add: dict_get_def)
qed

section \<open>What \<open>remove_item\<close> computes\<close>

lemma remove_item_present:
  "map_of d item = Some cur \<Longrightarrow>
   remove_item d item qty =
     (if cur > qty then
        Returned () (dict_setitem d item (cur - qty))
          [(INFO, ''Removed %s of %s. New stock: %s'', [PInt qty, PStr item, PInt (cur - qty)])]
      else
        Returned () (filter (\<lambda>p. fst p \<noteq> item) d)
          [(INFO, ''Removed all stock of %s.'', [PStr item])])"
  by (simp add: remove_item_def remove_item_try_def dict_getitem_def dict_delitem_def
      map_of_setitem_same)

lemma remove_item_absent:
  "map_of d item = None \<Longrightarrow>
   remove_item d item qty =
     Returned () d
       [(WARNING, ''Attempted to remove '' @ [CHR 0x27] @ ''%s'' @ [CHR 0x27]
           @ '' but it does not exist in stock.'', [PStr item])]"
  by (simp add: remove_item_def remove_item_try_def dict_getitem_def)

section \<open>The invariant of the store\<close>

text \<open>
  Claim C1, as stated: every \<open>add\<close> and every \<open>remove\<close> keeps all stored quantities
  strictly positive. It fails for \<open>add\<close>: \<open>add_item\<close> tests the types and the empty name
  but not the sign, so adding \<open>-5\<close> to an item stored with quantity 1 stores \<open>-4\<close>.
\<close>

theorem add_item_negative_breaks_invariant:
  "store_inv [(py ''a'', 1)] \<and>
   \<not> store_inv (state_after (add_item [(py ''a'', 1)] (PStr (py ''a'')) (PInt (- 5))))"
  by (simp add: store_inv_def add_item_def dict_get_def py_def)

text \<open>
  Claim C1, amended: from a store whose quantities are all strictly positive,
  \<open>remove_item\<close> always leaves such a store, and \<open>add_item\<close> leaves such a store
  exactly when the call is rejected or the quantity it stores, the old quantity (0 when
  absent) plus \<open>qty\<close>, is strictly positive; in particular \<open>add_item\<close> leaves such a
  store for every integer \<open>qty\<close> greater than 0, whatever the item.
\<close>

theorem invariant_remove_and_positive_add:
  assumes "store_inv d"
  shows "store_inv (state_after (remove_item d name n)) \<and>
    (store_inv (state_after (add_item d item qty)) \<longleftrightarrow>
       (\<forall>s q. str_of item = Some s \<and> s \<noteq> [] \<and> int_of qty = Some q
          \<longrightarrow> 0 < dict_get d s 0 + q)) \<and>
    (\<forall>q. int_of qty = Some q \<and> 0 < q
       \<longrightarrow> store_inv (state_after (add_item d item qty)))"
proof (intro conjI)
  show "store_inv (state_after (remove_item d name n))"
  proof (cases "map_of d name")
    case None
    then show ?thesis using assms by (simp add: remove_item_absent)
  next
    case (Some cur)
    then show ?thesis using assms
      by (simp add: remove_item_present store_inv_filter store_inv_setitem)
  qed
next
  show "store_inv (state_after (add_item d item qty)) \<longleftrightarrow>
       (\<forall>s q. str_of item = Some s \<and> s \<noteq> [] \<and> int_of qty = Some q
          \<longrightarrow> 0 < dict_get d s 0 + q)"
    using assms
    by (auto simp: add_item_def store_inv_setitem split: option.splits)
next
  show "\<forall>q. int_of qty = Some q \<and> 0 < q
       \<longrightarrow> store_inv (state_after (add_item d item qty))"
  proof (intro allI impI)
    fix q
    assume q: "int_of qty = Some q \<and> 0 < q"
    show "store_inv (state_after (add_item d item qty))"
    proof (cases "str_of item")
      case None
      then show ?thesis using assms by (simp add: add_item_def)
    next
      case (Some s)
      have "0 < dict_get d s 0 + q"
        using dict_get_nonneg [OF assms, of s] q by linarith
      then show ?thesis using assms Some q
        by (simp add: add_item_def store_inv_setitem)
    qed
  qed
qed

theorem invariant_remove_and_positive_add_witness:
  "store_inv [(py ''a'', 3)] \<and>
   store_inv (state_after (remove_item [(py ''a'', 3)] (py ''a'') 1)) \<and>
   store_inv (state_after (add_item [(py ''a'', 3)] (PStr (py ''b'')) (PInt 2)))"
proof -
  have h: "store_inv [(py ''a'', 3)]" by (simp add: store_inv_def)
  show ?thesis
    using h invariant_remove_and_positive_add
      [OF h, of "py ''a''" 1 "PStr (py ''b'')" "PInt 2"]
    by (simp add: dict_get_def py_def)
qed

section \<open>Adding\<close>

text \<open>
  Claim C2: for a non-empty string item and an integer \<open>qty\<close>, \<open>add_item\<close> returns
  normally and the quantity read back with \<open>get_qty\<close> is the quantity read before plus
  \<open>qty\<close>; when the item was absent the quantity before is 0 and the entry is created,
  at the end of the dictionary, with \<open>0 + qty\<close>.
\<close>

theorem get_after_add:
  assumes "name \<noteq> []" and "int_of qty = Some q"
  shows "\<exists>g. result_of (get_qty d name) = Some g \<and>
           raised (add_item d (PStr name) qty) = None \<and>
           result_of (get_qty (state_after (add_item d (PStr name) qty)) name) = Some (g + q) \<and>
           (map_of d name = None \<longrightarrow>
              g = 0 \<and> state_after (add_item d (PStr name) qty) = d @ [(name, 0 + q)])"
  using assms
  by (simp add: get_qty_def add_item_def dict_get_def map_of_setitem_same setitem_absent)

theorem get_after_add_witness:
  "py ''apple'' \<noteq> [] \<and> int_of (PInt 10) = Some 10 \<and>
   result_of (get_qty [(py ''apple'', 7)] (py ''apple'')) = Some 7 \<and>
   result_of (get_qty (state_after (add_item [(py ''apple'', 7)] (PStr (py ''apple'')) (PInt 10)))
      (py ''apple'')) = Some 17"
proof -
  have a: "py ''apple'' \<noteq> []" by (simp add: py_def)
  have b: "int_of (PInt 10) = Some 10" by simp
  show ?thesis
    using a b get_after_add [OF a b, of "[(py ''apple'', 7)]"]
    by (simp add: get_qty_def dict_get_def)
qed

text \<open>
  Claim C6: \<open>add_item\<close> called with an item that is not a string, a quantity that is not
  an integer, or the empty name returns normally, leaves the store as it was and emits
  one log record, an error or a warning. (As in Python, \<open>True\<close> and \<open>False\<close> are
  integers.)
\<close>

theorem add_rejects_invalid_input:
  assumes "\<not> isinstance_str item \<or> \<not> isinstance_int qty \<or> item = PStr []"
  shows "result_of (add_item d item qty) = Some () \<and>
         raised (add_item d item qty) = None \<and>
         state_after (add_item d item qty) = d \<and>
         (map fst (logged (add_item d item qty)) = [ERROR] \<or>
          map fst (logged (add_item d item qty)) = [WARNING])"
  using assms
  by (auto simp: add_item_def isinstance_str_def isinstance_int_def split: option.splits)

theorem add_rejects_invalid_input_witness:
  "\<not> isinstance_str (PInt 123) \<and>
   state_after (add_item [(py ''apple'', 10)] (PInt 123) (PStr (py ''ten''))) = [(py ''apple'', 10)] \<and>
   raised (add_item [(py ''apple'', 10)] (PInt 123) (PStr (py ''ten''))) = None"
proof -
  have a: "\<not> isinstance_str (PInt 123)" by (simp add: isinstance_str_def)
  then have b: "\<not> isinstance_str (PInt 123) \<or> \<not> isinstance_int (PStr (py ''ten''))
      \<or> PInt 123 = PStr []"
    by simp
  show ?thesis
    using a add_rejects_invalid_input [OF b, of "[(py ''apple'', 10)]"] by simp
qed

section \<open>Removing\<close>

text \<open>
  Claim C3: when the item is present with quantity \<open>cur\<close> and \<open>qty\<close> is at least \<open>cur\<close>,
  \<open>remove_item\<close> returns normally and the item is absent afterwards.
\<close>

theorem remove_depletes:
  assumes "map_of d item = Some cur" and "cur \<le> qty"
  shows "raised (remove_item d item qty) = None \<and>
         item \<notin> fst ` set (state_after (remove_item d item qty)) \<and>
         map_of (state_after (remove_item d item qty)) item = None"
  using assms by (auto simp: remove_item_present map_of_filter_same)

theorem remove_depletes_witness:
  "map_of [(py ''a'', 3), (py ''b'', 5)] (py ''a'') = Some 3 \<and> (3::int) \<le> 4 \<and>
   state_after (remove_item [(py ''a'', 3), (py ''b'', 5)] (py ''a'') 4) = [(py ''b'', 5)]"
proof -
  have a: "map_of [(py ''a'', 3), (py ''b'', 5)] (py ''a'') = Some (3::int)" by simp
  have b: "(3::int) \<le> 4" by simp
  show ?thesis
    using a b remove_depletes [OF a b]
    by (simp add: remove_item_present py_def)
qed

text \<open>
  Claim C4: when the item is present with quantity \<open>cur\<close> and \<open>qty\<close> is less than \<open>cur\<close>,
  \<open>remove_item\<close> returns normally and the item is present afterwards with quantity
  \<open>cur - qty\<close>, which is what \<open>get_qty\<close> then returns.
\<close>

theorem remove_decrements:
  assumes "map_of d item = Some cur" and "qty < cur"
  shows "raised (remove_item d item qty) = None \<and>
         map_of (state_after (remove_item d item qty)) item = Some (cur - qty) \<and>
         result_of (get_qty (state_after (remove_item d item qty)) item) = Some (cur - qty)"
  using assms by (simp add: remove_item_present map_of_setitem_same get_qty_def dict_get_def)

theorem remove_decrements_witness:
  "map_of [(py ''apple'', 10)] (py ''apple'') = Some 10 \<and> (3::int) < 10 \<and>
   result_of (get_qty (state_after (remove_item [(py ''apple'', 10)] (py ''apple'') 3))
     (py ''apple'')) = Some 7"
proof -
  have a: "map_of [(py ''apple'', 10)] (py ''apple'') = Some (10::int)" by simp
  have b: "(3::int) < 10" by simp
  show ?thesis using a b remove_decrements [OF a b] by simp
qed

text \<open>
  Claim C5: when the item is absent, \<open>remove_item\<close> returns normally for every \<open>qty\<close>,
  the store is unchanged, and the only log record is a warning.
\<close>

theorem remove_absent_is_noop:
  assumes "map_of d item = None"
  shows "result_of (remove_item d item qty) = Some () \<and>
         raised (remove_item d item qty) = None \<and>
         state_after (remove_item d item qty) = d \<and>
         map fst (logged (remove_item d item qty)) = [WARNING]"
  using assms by (simp add: remove_item_absent)

theorem remove_absent_is_noop_witness:
  "map_of [(py ''apple'', 7)] (py ''orange'') = None \<and>
   state_after (remove_item [(py ''apple'', 7)] (py ''orange'') 1) = [(py ''apple'', 7)] \<and>
   raised (remove_item [(py ''apple'', 7)] (py ''orange'') 1) = None"
proof -
  have a: "map_of [(py ''apple'', 7::int)] (py ''orange'') = None" by (simp add: py_def)
  show ?thesis using a remove_absent_is_noop [OF a, of 1] by (simp add: py_def)
qed

section \<open>Low stock\<close>

lemma low_filter_keys:
  "distinct (map fst d) \<Longrightarrow>
   map fst (filter (\<lambda>(item, qty). qty < t) d) =
   filter (\<lambda>k. case map_of d k of None \<Rightarrow> False | Some q \<Rightarrow> q < t) (map fst d)"
proof (induction d)
  case Nil
  then show ?case by simp
next
  case (Cons p d)
  obtain k q where p: "p = (k, q)" by (cases p)
  from Cons.prems p have notin: "k \<notin> fst ` set d" and dist: "distinct (map fst d)"
    by auto
  have same:
    "filter (\<lambda>k'. case map_of ((k, q) # d) k' of None \<Rightarrow> False | Some q' \<Rightarrow> q' < t) (map fst d)
      = filter (\<lambda>k'. case map_of d k' of None \<Rightarrow> False | Some q' \<Rightarrow> q' < t) (map fst d)"
    using notin by (intro filter_cong) auto
  show ?case
    using Cons.IH [OF dist] same by (simp add: p)
qed

text \<open>
  Claim C7: on a dictionary (its keys are distinct), \<open>check_low_items\<close> returns the
  keys whose quantity is strictly less than the threshold, in the iteration order of
  the store, and the store it leaves is the store it was given; on
  \<open>{"a": 2, "b": 10, "c": 4}\<close> with threshold 5 the result is \<open>["a", "c"]\<close>.
\<close>

theorem check_low_items_exact:
  assumes "wf_dict d"
  shows "result_of (check_low_items d t) = Some (lowStock_spec d t) \<and>
         raised (check_low_items d t) = None \<and>
         state_after (check_low_items d t) = d \<and>
         subseq (lowStock_spec d t) (map fst d) \<and>
         (\<forall>k. k \<in> set (lowStock_spec d t) \<longleftrightarrow> (\<exists>q. map_of d k = Some q \<and> q < t)) \<and>
         result_of (check_low_items [(py ''a'', 2), (py ''b'', 10), (py ''c'', 4)] 5)
           = Some [py ''a'', py ''c'']"
proof -
  have eq: "map fst (filter (\<lambda>(item, qty). qty < t) d) = lowStock_spec d t"
    using assms by (simp add: wf_dict_def lowStock_spec_def low_filter_keys)
  have mem: "\<forall>k. k \<in> set (lowStock_spec d t) \<longleftrightarrow> (\<exists>q. map_of d k = Some q \<and> q < t)"
    by (force simp: lowStock_spec_def split: option.splits dest: map_of_SomeD)
  have sub: "subseq (lowStock_spec d t) (map fst d)"
    by (simp add: lowStock_spec_def)
  have ex: "result_of (check_low_items [(py ''a'', 2), (py ''b'', 10), (py ''c'', 4)] 5)
           = Some [py ''a'', py ''c'']"
    by (simp add: check_low_items_def)
  show ?thesis
    using eq mem sub ex by (simp add: check_low_items_def)
qed

theorem check_low_items_exact_witness:
  "wf_dict [(py ''x'', 1::int), (py ''y'', 7), (py ''z'', 0)] \<and>
   result_of (check_low_items [(py ''x'', 1), (py ''y'', 7), (py ''z'', 0)] 5)
     = Some [py ''x'', py ''z'']"
proof -
  have a: "wf_dict [(py ''x'', 1::int), (py ''y'', 7), (py ''z'', 0)]"
    by (simp add: wf_dict_def py_def)
  show ?thesis
    using a check_low_items_exact [OF a, of 5] by (simp add: lowStock_spec_def py_def)
qed

section \<open>The other entries are left alone\<close>

text \<open>
  Claim C10: \<open>add_item\<close> and \<open>remove_item\<close> change at most the entry of the item they are
  called with: every other key is present afterwards exactly when it was present
  before, with the same quantity.
\<close>

theorem add_remove_frame:
  "(PStr k \<noteq> item \<longrightarrow> map_of (state_after (add_item d item qty)) k = map_of d k) \<and>
   (k \<noteq> name \<longrightarrow> map_of (state_after (remove_item d name n)) k = map_of d k)"
proof (intro conjI impI)
  assume "PStr k \<noteq> item"
  then show "map_of (state_after (add_item d item qty)) k = map_of d k"
    by (cases item) (auto simp: add_item_def map_of_setitem_other split: option.splits)
next
  assume "k \<noteq> name"
  then show "map_of (state_after (remove_item d name n)) k = map_of d k"
    by (cases "map_of d name")
       (simp_all add: remove_item_absent remove_item_present map_of_setitem_other
          map_of_filter_other)
qed

theorem add_remove_frame_witness:
  "PStr (py ''b'') \<noteq> PStr (py ''a'') \<and> py ''b'' \<noteq> py ''a'' \<and>
   map_of (state_after (add_item [(py ''a'', 1), (py ''b'', 2)] (PStr (py ''a'')) (PInt 5))) (py ''b'')
     = Some 2 \<and>
   map_of (state_after (remove_item [(py ''a'', 1), (py ''b'', 2)] (py ''a'') 1)) (py ''b'')
     = Some 2"
proof -
  have a: "py ''b'' \<noteq> py ''a''" by (simp add: py_def)
  show ?thesis
    using a add_remove_frame
      [of "py ''b''" "PStr (py ''a'')" "[(py ''a'', 1), (py ''b'', 2)]" "PInt 5" "py ''a''" 1]
    by simp
qed

section \<open>White space and numbers\<close>




















section \<open>Strings through the encoder and the decoder\<close>
















section \<open>The scanners consume their input\<close>

lemma cons_chr_Some: "cons_chr c x = Some (k, r) \<Longrightarrow> \<exists>k'. x = Some (k', r)"
  by (cases x) (auto simp: cons_chr_def)

lemma scanstring_length: "scanstring s = Some (k, r) \<Longrightarrow> length r < length s"
proof (induction "length s" arbitrary: s k r rule: less_induct)
  case less
  show ?case
  proof (cases s)
    case Nil
    with less.prems show ?thesis by (simp add: scanstring.simps)
  next
    case (Cons c s')
    define n where "n = length s"
    have n: "length s' < n" by (simp add: n_def Cons)
    have sub: "length r < n" if a: "cons_chr ch (scanstring u) = Some (k, r)"
      and b: "length u < n" for ch u
    proof -
      obtain k' where k': "scanstring u = Some (k', r)" using cons_chr_Some [OF a] by blast
      have "length u < length s" using b by (simp add: n_def)
      then have "length r < length u" using k' by (rule less.hyps)
      with b show ?thesis by simp
    qed
    have "scanstring (c # s') = Some (k, r)" using less.prems Cons by simp
    then have "length r < n"
      using n
      apply (subst (asm) scanstring.simps)
      apply (auto split: if_splits list.splits option.splits intro!: sub)
      done
    then show ?thesis by (simp add: n_def)
  qed
qed


lemma length_skip_ws: "length (skip_ws s) \<le> length s"
  by (simp add: skip_ws_def length_dropWhile_le)

lemma skip_ws_Cons_length: "skip_ws s = x # r \<Longrightarrow> length r < length s"
  using length_skip_ws [of s] by simp

lemma scan_intpart_length:
  assumes "scan_intpart s = Some (neg, ds, r)"
  shows "length r < length s"
proof (cases s)
  case Nil
  with assms show ?thesis by (simp add: scan_intpart_def)
next
  case (Cons c t)
  have d: "length (dropWhile is_digit u) \<le> length u" for u
    by (rule length_dropWhile_le)
  show ?thesis
    using assms d [of t] d [of "tl t"]
    by (cases t) (auto simp: scan_intpart_def Cons Let_def split: if_splits list.splits)
qed

lemma scan_frac_length: "scan_frac s = (f, r) \<Longrightarrow> length r \<le> length s"
  using length_dropWhile_le [of is_digit "tl s"]
  by (cases s) (auto simp: scan_frac_def split: if_splits)

lemma scan_exp_length:
  assumes "scan_exp s = (e, r)"
  shows "length r \<le> length s"
proof (cases s)
  case Nil
  with assms show ?thesis by (simp add: scan_exp_def)
next
  case (Cons c t)
  have d: "length (dropWhile is_digit (drop n t)) \<le> length t" for n
    using length_dropWhile_le [of is_digit "drop n t"] by simp
  show ?thesis
    using assms d
    by (auto simp: scan_exp_def Cons Let_def le_SucI split: if_splits)
qed

lemma match_number_length:
  assumes "match_number s = Some (Inr (v, r))"
  shows "length r < length s"
proof -
  from assms obtain neg ds r1 where i: "scan_intpart s = Some (neg, ds, r1)"
    by (auto simp: match_number_def split: option.splits)
  obtain f r2 where f: "scan_frac r1 = (f, r2)" by (cases "scan_frac r1")
  obtain e r3 where e: "scan_exp r2 = (e, r3)" by (cases "scan_exp r2")
  have "r = r3"
    using assms by (auto simp: match_number_def i f e split: if_splits)
  then show ?thesis
    using scan_intpart_length [OF i] scan_frac_length [OF f] scan_exp_length [OF e] by simp
qed


lemma scan_length:
  "scan_once s = Inr (v, r) \<Longrightarrow> length r < length s"
  "array_items acc s1 = Inr (v1, r1) \<Longrightarrow> length r1 < length s1"
  "object_members acc2 s2 = Inr (v2, r2) \<Longrightarrow> length r2 < length s2"
proof (induction s and acc s1 and acc2 s2 arbitrary: v r and v1 r1 and v2 r2
    rule: scan_once_array_items_object_members.induct)
  case (1 s)
  show ?case
  proof (cases s)
    case Nil
    with "1.prems" show ?thesis by (simp add: scan_once.simps)
  next
    case (Cons c t)
    consider (obj) "c \<noteq> 34" "c = 123" | (arr) "c \<noteq> 34" "c \<noteq> 123" "c = 91"
      | (other) "c = 34 \<or> (c \<noteq> 123 \<and> c \<noteq> 91)" by blast
    then show ?thesis
    proof cases
      case obj
      have eq: "(case skip_ws t of
                   [] \<Rightarrow> Inl JSONDecodeError
                 | x # u \<Rightarrow> if x = 125 then Inr (PDict [], u)
                            else if x = 34 then object_members [] u
                            else Inl JSONDecodeError) = Inr (v, r)"
        using "1.prems" obj by (subst (asm) scan_once.simps) (simp add: Cons)
      then obtain x u where xu: "skip_ws t = x # u" by (cases "skip_ws t") auto
      have lu: "length u < length t" using xu by (rule skip_ws_Cons_length)
      show ?thesis
      proof (cases "x = 125")
        case True
        with eq xu lu show ?thesis by (simp add: Cons)
      next
        case False
        with eq xu have x: "x = 34" and m: "object_members [] u = Inr (v, r)"
          by (auto split: if_splits)
        have "length r < length u"
          by (rule "1.IH"(1) [OF Cons obj(1) obj(2) xu False x m])
        with lu show ?thesis by (simp add: Cons)
      qed
    next
      case arr
      have eq: "(case skip_ws t of
                   [] \<Rightarrow> Inl JSONDecodeError
                 | x # u \<Rightarrow> if x = 93 then Inr (PList [], u)
                            else array_items [] (x # u)) = Inr (v, r)"
        using "1.prems" arr by (subst (asm) scan_once.simps) (simp add: Cons)
      then obtain x u where xu: "skip_ws t = x # u" by (cases "skip_ws t") auto
      have lu: "length u < length t" using xu by (rule skip_ws_Cons_length)
      show ?thesis
      proof (cases "x = 93")
        case True
        with eq xu lu show ?thesis by (simp add: Cons)
      next
        case False
        with eq xu have m: "array_items [] (x # u) = Inr (v, r)" by simp
        have "length r < length (x # u)"
          by (rule "1.IH"(2) [OF Cons arr(1) arr(2) arr(3) xu False m])
        with lu show ?thesis by (simp add: Cons)
      qed
    next
      case other
      with "1.prems" show ?thesis
        unfolding Cons
        apply (subst (asm) scan_once.simps)
        apply (auto split: list.splits if_splits option.splits
            dest!: scanstring_length match_number_length)
        done
    qed
  qed
next
  case (2 acc s)
  from "2.prems" obtain v' rest where so: "scan_once s = Inr (v', rest)"
    by (subst (asm) array_items.simps) (auto split: sum.splits)
  have l1: "length rest < length s" by (rule "2.IH"(1) [OF so])
  then have le: "length rest \<le> length s" by simp
  have eq: "(case skip_ws rest of
               [] \<Rightarrow> Inl JSONDecodeError
             | x # u \<Rightarrow> if x = 93 then Inr (PList (acc @ [v']), u)
                        else if x = 44 then array_items (acc @ [v']) (skip_ws u)
                        else Inl JSONDecodeError) = Inr (v1, r1)"
    using "2.prems" le by (subst (asm) array_items.simps) (simp add: so)
  then obtain x u where xu: "skip_ws rest = x # u" by (cases "skip_ws rest") auto
  have lu: "length u < length rest" using xu by (rule skip_ws_Cons_length)
  show ?case
  proof (cases "x = 93")
    case True
    with eq xu lu l1 show ?thesis by simp
  next
    case False
    with eq xu have x: "x = 44" and m: "array_items (acc @ [v']) (skip_ws u) = Inr (v1, r1)"
      by (auto split: if_splits)
    have "length r1 < length (skip_ws u)"
      by (rule "2.IH"(2) [OF so refl le xu False x m])
    with length_skip_ws [of u] lu l1 show ?thesis by simp
  qed
next
  case (3 acc s)
  from "3.prems" obtain key r0 where ss: "scanstring s = Some (key, r0)"
    by (subst (asm) object_members.simps) (auto split: option.splits)
  have l0: "length r0 < length s" using ss by (rule scanstring_length)
  have eq0: "(case skip_ws r0 of
               [] \<Rightarrow> Inl JSONDecodeError
             | x # u \<Rightarrow>
                 if x \<noteq> 58 \<or> length s \<le> length u then Inl JSONDecodeError
                 else
                   (case scan_once (skip_ws u) of
                      Inl e \<Rightarrow> Inl e
                    | Inr (v, rest) \<Rightarrow>
                        if length rest \<le> length (skip_ws u) then
                          (case skip_ws rest of
                             [] \<Rightarrow> Inl JSONDecodeError
                           | y # w \<Rightarrow>
                               if y = 125 then Inr (PDict (dict_of_pairs (acc @ [(key, v)])), w)
                               else if y = 44 then
                                 (case skip_ws w of
                                    [] \<Rightarrow> Inl JSONDecodeError
                                  | z # r3 \<Rightarrow>
                                      if z = 34 then object_members (acc @ [(key, v)]) r3
                                      else Inl JSONDecodeError)
                               else Inl JSONDecodeError)
                        else Inl JSONDecodeError)) = Inr (v2, r2)"
    using "3.prems" by (subst (asm) object_members.simps) (simp add: ss)
  then obtain x u where xu: "skip_ws r0 = x # u" by (cases "skip_ws r0") auto
  have lu: "length u < length r0" using xu by (rule skip_ws_Cons_length)
  from eq0 xu have g: "\<not> (x \<noteq> 58 \<or> length s \<le> length u)"
    by (auto split: if_splits)
  from eq0 xu g obtain v' rest where so: "scan_once (skip_ws u) = Inr (v', rest)"
    by (auto split: if_splits sum.splits)
  have l1: "length rest < length (skip_ws u)"
    by (rule "3.IH"(1) [OF ss refl xu g so])
  then have le: "length rest \<le> length (skip_ws u)" by simp
  from eq0 xu g so le have eq:
    "(case skip_ws rest of
        [] \<Rightarrow> Inl JSONDecodeError
      | y # w \<Rightarrow>
          if y = 125 then Inr (PDict (dict_of_pairs (acc @ [(key, v')])), w)
          else if y = 44 then
            (case skip_ws w of
               [] \<Rightarrow> Inl JSONDecodeError
             | z # r3 \<Rightarrow>
                 if z = 34 then object_members (acc @ [(key, v')]) r3
                 else Inl JSONDecodeError)
          else Inl JSONDecodeError) = Inr (v2, r2)"
    by (simp split: if_splits)
  then obtain y w where yw: "skip_ws rest = y # w" by (cases "skip_ws rest") auto
  have lw: "length w < length rest" using yw by (rule skip_ws_Cons_length)
  have bound: "length w < length s"
    using lw l1 length_skip_ws [of u] lu l0 by simp
  show ?case
  proof (cases "y = 125")
    case True
    with eq yw bound show ?thesis by simp
  next
    case False
    with eq yw have y: "y = 44" by (auto split: if_splits)
    with eq yw False obtain z r3 where zr: "skip_ws w = z # r3"
      by (cases "skip_ws w") auto
    have l3: "length r3 < length w" using zr by (rule skip_ws_Cons_length)
    from eq yw False y zr have z: "z = 34"
      and m: "object_members (acc @ [(key, v')]) r3 = Inr (v2, r2)"
      by (auto split: if_splits)
    have "length r2 < length r3"
      by (rule "3.IH"(2) [OF ss refl xu g so refl le yw False y zr z m])
    with l3 bound show ?thesis by simp
  qed
qed

text \<open>So the comparisons of lengths in the scanners never fail: \<open>array_items\<close> and
  \<open>object_members\<close> satisfy their defining equations without them.\<close>

lemma array_items_unfold:
  "array_items acc s =
     (case scan_once s of
        Inl e \<Rightarrow> Inl e
      | Inr (v, rest) \<Rightarrow>
          (case skip_ws rest of
             [] \<Rightarrow> Inl JSONDecodeError
           | x # r \<Rightarrow>
               if x = 93 then Inr (PList (acc @ [v]), r)
               else if x = 44 then array_items (acc @ [v]) (skip_ws r)
               else Inl JSONDecodeError))"
proof (cases "scan_once s")
  case (Inl e)
  then show ?thesis by (subst array_items.simps) simp
next
  case (Inr p)
  obtain v rest where p: "p = (v, rest)" by (cases p)
  have "length rest \<le> length s" using scan_length(1) [of s v rest] Inr p by simp
  then show ?thesis by (subst array_items.simps) (simp add: Inr p)
qed

lemma object_members_unfold:
  "object_members acc s =
     (case scanstring s of
        None \<Rightarrow> Inl JSONDecodeError
      | Some (key, r0) \<Rightarrow>
          (case skip_ws r0 of
             [] \<Rightarrow> Inl JSONDecodeError
           | x # r1 \<Rightarrow>
               if x \<noteq> 58 then Inl JSONDecodeError
               else
                 (case scan_once (skip_ws r1) of
                    Inl e \<Rightarrow> Inl e
                  | Inr (v, rest) \<Rightarrow>
                      (case skip_ws rest of
                         [] \<Rightarrow> Inl JSONDecodeError
                       | y # r2 \<Rightarrow>
                           if y = 125 then Inr (PDict (dict_of_pairs (acc @ [(key, v)])), r2)
                           else if y = 44 then
                             (case skip_ws r2 of
                                [] \<Rightarrow> Inl JSONDecodeError
                              | z # r3 \<Rightarrow>
                                  if z = 34 then object_members (acc @ [(key, v)]) r3
                                  else Inl JSONDecodeError)
                           else Inl JSONDecodeError))))"
proof (cases "scanstring s")
  case None
  then show ?thesis by (subst object_members.simps) simp
next
  case (Some p)
  obtain key r0 where p: "p = (key, r0)" by (cases p)
  have l0: "length r0 < length s" using scanstring_length [of s key r0] Some p by simp
  show ?thesis
  proof (cases "skip_ws r0")
    case Nil
    then show ?thesis by (subst object_members.simps) (simp add: Some p)
  next
    case (Cons x r1)
    have "length r1 < length r0" using Cons by (rule skip_ws_Cons_length)
    with l0 have g: "\<not> length s \<le> length r1" by simp
    show ?thesis
    proof (cases "scan_once (skip_ws r1)")
      case (Inl e)
      then show ?thesis by (subst object_members.simps) (simp add: Some p Cons g)
    next
      case (Inr q)
      obtain v rest where q: "q = (v, rest)" by (cases q)
      have "length rest \<le> length (skip_ws r1)"
        using scan_length(1) [of "skip_ws r1" v rest] Inr q by simp
      then show ?thesis by (subst object_members.simps) (simp add: Some p Cons g Inr q)
    qed
  qed
qed

section \<open>Objects through the encoder and the decoder\<close>




lemma ends_number_Cons:
  "\<not> is_digit c \<Longrightarrow> c \<noteq> 46 \<Longrightarrow> c \<noteq> 101 \<Longrightarrow> c \<noteq> 69 \<Longrightarrow> ends_number (c # r)"
  by (simp add: ends_number_def)









section \<open>Saving and loading\<close>








section \<open>Loading a missing or corrupt file\<close>




end
